theory Spec2Isabelle
  imports Complex_Main "HOL-Library.Word"
begin

section \<open>Power spectral density estimator (src/src/Measurements/Psd.cpp)\<close>

subsection \<open>Arithmetic on double and the transform engine\<close>

text \<open>
  The estimator computes on C++ \<open>double\<close>. The operations it uses are collected in a
  record, and every function below takes that record as its first argument: a theorem
  stated for an arbitrary record holds whatever the rounding of the machine is.
  \<^item> \<open>from_int\<close>: conversion of an \<open>int\<close> or \<open>int16_t\<close> value to double, also of the
    integer literals 0 and 2 that the code assigns to a double or multiplies one by;
  \<^item> \<open>from_size\<close>: conversion of a \<open>size_t\<close> value to double;
  \<^item> \<open>fp_add\<close>, \<open>fp_mul\<close>, \<open>fp_div\<close>: \<open>+\<close>, \<open>*\<close> and \<open>/\<close> on double;
  \<^item> \<open>to_int16\<close>: \<open>static_cast<int16_t>\<close> of a double;
  \<^item> \<open>decimal\<close>: the double that a decimal literal denotes, \<open>decimal m e\<close> for the
    literal \<open>m\<close> times 10 to the power \<open>-e\<close>.
\<close>

record 'd arith =
  from_int :: "int \<Rightarrow> 'd"
  from_size :: "nat \<Rightarrow> 'd"
  fp_add :: "'d \<Rightarrow> 'd \<Rightarrow> 'd"
  fp_mul :: "'d \<Rightarrow> 'd \<Rightarrow> 'd"
  fp_div :: "'d \<Rightarrow> 'd \<Rightarrow> 'd"
  to_int16 :: "'d \<Rightarrow> 16 word"
  decimal :: "int \<Rightarrow> nat \<Rightarrow> 'd"

text \<open>Line 26: \<open>constexpr double windowCorrection = 1.59\<close>.\<close>

definition windowCorrection :: "'d arith \<Rightarrow> 'd" where
  "windowCorrection F = decimal F 159 2"

text \<open>
  The transform engine is the arduinoFFT library, which is not part of the repository.
  Its three entry points work in place on the buffers they are given; here each returns
  the new contents. The window type and the direction are constants at the only call
  site (\<open>FFT_WIN_TYP_HAMMING\<close>, \<open>FFT_FORWARD\<close>) and are left out.
\<close>

record 'd engine =
  windowing :: "'d list \<Rightarrow> nat \<Rightarrow> 'd list"
  compute :: "'d list \<Rightarrow> 'd list \<Rightarrow> nat \<Rightarrow> 'd list \<times> 'd list"
  complexToMagnitude :: "'d list \<Rightarrow> 'd list \<Rightarrow> nat \<Rightarrow> 'd list"

subsection \<open>State and faults\<close>

text \<open>
  Modelled from the spec: the declaration of the members of class \<open>PSD\<close> and of the
  constant \<open>samplesCountMax\<close>, which are in \<open>Measurements/Psd.h\<close>, a file that is
  not among the sources. The accumulator \<open>_bins\<close> is an array of \<open>samplesCountMax\<close>
  doubles (spec, section 3), so \<open>length (bins s)\<close> stands for \<open>samplesCountMax\<close>; the
  work buffers \<open>vReal\<close> and \<open>vImag\<close> have the same capacity (Psd.cpp, lines 51-52).
  The segment counter is a count of segments with no stated bound and is a \<open>nat\<close>; so
  are the two \<open>size_t\<close> configuration fields, and all three are converted to double
  by \<open>from_size\<close>.
\<close>

record 'd psd =
  sampleCount :: nat
  sampleFrequency :: nat
  segmentCount :: nat
  bins :: "'d list"

text \<open>
  A C++ function has no error result here: all four operations return \<open>void\<close> or a
  pointer. What can go wrong is a failed \<open>assert\<close> and an access outside an array,
  which is undefined behaviour. Both are values of \<open>fault\<close>, and \<open>Inl\<close> of a fault
  means that the execution does not reach the end of the function normally; it does
  not mean that the caller is told.
\<close>

datatype fault = AssertionFailed | OutOfBounds

subsection \<open>Loops over the accumulator\<close>

text \<open>
  The three loops over \<open>_bins\<close> (lines 99-108, 124-127 and 142-145) have the shape
  \<^verbatim>\<open>for (size_t idx = 0; idx < _sampleCount; idx++) _bins[idx] = f(idx, _bins[idx]);\<close>
  The indices are visited in order and each access is checked against the length of
  the array: the first index outside it ends the loop with the fault.
\<close>

fun update_loop :: "(nat \<Rightarrow> 'd \<Rightarrow> 'd) \<Rightarrow> nat list \<Rightarrow> 'd list \<Rightarrow> fault + 'd list" where
  "update_loop f [] b = Inr b"
| "update_loop f (idx # rest) b =
     (if idx < length b then update_loop f rest (b[idx := f idx (b ! idx)])
      else Inl OutOfBounds)"

subsection \<open>getAverage (lines 31-45)\<close>

text \<open>
  \<^verbatim>\<open>double sum = 0; for (idx < count) sum += elements[idx];\<close>
  The buffer behind the pointer is a list; a read at or beyond its length is a fault.
  The variable \<open>sum\<close> is called \<open>acc\<close> (\<open>sum\<close> is a constant of HOL).
\<close>

fun sum_loop :: "'d arith \<Rightarrow> 16 word list \<Rightarrow> nat list \<Rightarrow> 'd \<Rightarrow> fault + 'd" where
  "sum_loop F elements [] acc = Inr acc"
| "sum_loop F elements (idx # rest) acc =
     (if idx < length elements
      then sum_loop F elements rest (fp_add F acc (from_int F (sint (elements ! idx))))
      else Inl OutOfBounds)"

text \<open>
  The template is instantiated at \<open>T = const int16_t\<close>: the quotient, a double, is cast
  back to \<open>int16_t\<close>. \<open>assert(elements)\<close> cannot fail on a list and has no branch.
  \<open>assert(count > 0)\<close> is the first branch; in a build without assertions a count
  of 0 divides 0 by 0 and casts the result, which is undefined as well.
\<close>

definition getAverage :: "'d arith \<Rightarrow> 16 word list \<Rightarrow> nat \<Rightarrow> fault + 16 word" where
  "getAverage F elements count =
     (if count = 0 then Inl AssertionFailed
      else case sum_loop F elements [0..<count] (from_int F 0) of
             Inl e \<Rightarrow> Inl e
           | Inr acc \<Rightarrow> Inr (to_int16 F (fp_div F acc (from_size F count))))"

subsection \<open>setup, clear, computeSegment, getResult\<close>

text \<open>
  Lines 64-73. The function is \<open>PSD::setup\<close>; it is named \<open>setup_psd\<close> here because
  \<open>setup\<close> is a keyword of Isabelle. It returns \<open>void\<close> and has no check.
\<close>

definition setup_psd :: "nat \<Rightarrow> nat \<Rightarrow> 'd psd \<Rightarrow> 'd psd" where
  "setup_psd count frequency s =
     s\<lparr>sampleCount := count, sampleFrequency := frequency, segmentCount := 0\<rparr>"

definition clear :: "'d arith \<Rightarrow> 'd psd \<Rightarrow> fault + 'd psd" where
  "clear F s =
     (case update_loop (\<lambda>idx x. from_int F 0) [0..<sampleCount s] (bins s) of
        Inl e \<Rightarrow> Inl e
      | Inr b \<Rightarrow> Inr (s\<lparr>bins := b\<rparr>))"

text \<open>
  Lines 89-93: \<open>vReal[idx] = samples[idx] - average; vImag[idx] = 0\<close>. The subtraction
  is between two \<open>int16_t\<close> values promoted to \<open>int\<close> (at least 32 bits wide on the
  target, so it cannot overflow), and the difference is converted to double. The work
  buffers are written on \<open>[0, count)\<close> and only that part is handed to the engine, so
  they are lists of length \<open>count\<close>; \<open>cap\<close> is their capacity.
\<close>

definition fill_buffers ::
  "'d arith \<Rightarrow> 16 word list \<Rightarrow> 16 word \<Rightarrow> nat \<Rightarrow> nat \<Rightarrow> fault + ('d list \<times> 'd list)" where
  "fill_buffers F samples average count cap =
     (if count \<le> cap \<and> count \<le> length samples
      then Inr (map (\<lambda>idx. from_int F (sint (samples ! idx) - sint average)) [0..<count],
                replicate count (from_int F 0))
      else Inl OutOfBounds)"

text \<open>Lines 95-97: window, forward transform, magnitude; the result is the new \<open>vReal\<close>.\<close>

definition magnitude :: "'d engine \<Rightarrow> 'd list \<times> 'd list \<Rightarrow> nat \<Rightarrow> 'd list" where
  "magnitude E buffers count =
     (let vReal1 = windowing E (fst buffers) count;
          (vReal2, vImag2) = compute E vReal1 (snd buffers) count
      in complexToMagnitude E vReal2 vImag2 count)"

text \<open>Lines 101-105: the power of one bin, doubled except for the DC bin.\<close>

definition bin_power :: "'d arith \<Rightarrow> 'd list \<Rightarrow> nat \<Rightarrow> nat \<Rightarrow> nat \<Rightarrow> 'd" where
  "bin_power F vReal frequency count idx =
     (let bin = fp_div F (fp_div F (fp_mul F (vReal ! idx) (vReal ! idx)) (from_size F frequency))
                  (from_size F count)
      in if idx > 0 then fp_mul F bin (from_int F 2) else bin)"

definition computeSegment ::
  "'d arith \<Rightarrow> 'd engine \<Rightarrow> 16 word list \<Rightarrow> 'd psd \<Rightarrow> fault + 'd psd" where
  "computeSegment F E samples s =
     (case (if segmentCount s = 0 then clear F s else Inr s) of
        Inl e \<Rightarrow> Inl e
      | Inr s1 \<Rightarrow>
     (case getAverage F samples (sampleCount s1) of
        Inl e \<Rightarrow> Inl e
      | Inr average \<Rightarrow>
     (case fill_buffers F samples average (sampleCount s1) (length (bins s1)) of
        Inl e \<Rightarrow> Inl e
      | Inr buffers \<Rightarrow>
     (case update_loop
             (\<lambda>idx x. fp_add F x
                (bin_power F (magnitude E buffers (sampleCount s1))
                   (sampleFrequency s1) (sampleCount s1) idx))
             [0..<sampleCount s1] (bins s1) of
        Inl e \<Rightarrow> Inl e
      | Inr b \<Rightarrow> Inr (s1\<lparr>bins := b, segmentCount := segmentCount s1 + 1\<rparr>)))))"

text \<open>
  \<open>getResult\<close> returns the pointer \<open>_bins\<close>: the view the caller reads is \<open>bins\<close> of the
  state that is returned.
\<close>

definition getResult :: "'d arith \<Rightarrow> 'd psd \<Rightarrow> fault + 'd psd" where
  "getResult F s =
     (if segmentCount s > 0
      then case update_loop
                  (\<lambda>idx x. fp_mul F (fp_mul F (fp_div F x (from_size F (segmentCount s)))
                               (windowCorrection F)) (windowCorrection F))
                  [0..<sampleCount s] (bins s) of
             Inl e \<Rightarrow> Inl e
           | Inr b \<Rightarrow> Inr (s\<lparr>bins := b, segmentCount := 0\<rparr>)
      else Inr s)"

subsection \<open>Derived notions used in the statements\<close>

text \<open>
  What \<open>getAverage\<close> returns on a buffer that is long enough, written without the
  index loop (lemma \<open>getAverage_ok\<close> below proves that it is the same value).
\<close>

definition average_of :: "'d arith \<Rightarrow> 16 word list \<Rightarrow> nat \<Rightarrow> 16 word" where
  "average_of F samples count =
     to_int16 F (fp_div F
       (foldl (\<lambda>acc x. fp_add F acc (from_int F (sint x))) (from_int F 0) (take count samples))
       (from_size F count))"

text \<open>
  The power that one segment contributes to bin \<open>idx\<close> under a configuration: lines
  88-105 of \<open>computeSegment\<close> put together. It depends on the arithmetic, the engine,
  the samples and the configuration, and on nothing else.
\<close>

definition contribution ::
  "'d arith \<Rightarrow> 'd engine \<Rightarrow> 16 word list \<Rightarrow> nat \<Rightarrow> nat \<Rightarrow> nat \<Rightarrow> 'd" where
  "contribution F E samples count frequency idx =
     bin_power F
       (magnitude E
          (map (\<lambda>idx. from_int F (sint (samples ! idx) - sint (average_of F samples count)))
             [0..<count],
           replicate count (from_int F 0))
          count)
       frequency count idx"

subsection \<open>Concrete arithmetic, engine and states for evaluation\<close>

text \<open>
  Exact arithmetic: doubles as real numbers, without rounding, overflow, infinities or
  NaN. It is used to evaluate the functions at concrete inputs, at which the division
  by a zero frequency does not occur. The cast to \<open>int16_t\<close> truncates towards zero.
\<close>

definition exact :: "real arith" where
  "exact =
     \<lparr>from_int = real_of_int, from_size = real,
      fp_add = (+), fp_mul = (*), fp_div = (/),
      to_int16 = (\<lambda>x. word_of_int (if 0 \<le> x then \<lfloor>x\<rfloor> else \<lceil>x\<rceil>)),
      decimal = (\<lambda>m e. real_of_int m / 10 ^ e)\<rparr>"

text \<open>
  A stand-in for the engine at concrete inputs: no window, no transform, the magnitude
  of each entry. The theorems below hold for every engine.
\<close>

definition passthrough :: "real engine" where
  "passthrough =
     \<lparr>windowing = (\<lambda>vReal count. vReal),
      compute = (\<lambda>vReal vImag count. (vReal, vImag)),
      complexToMagnitude = (\<lambda>vReal vImag count. map abs vReal)\<rparr>"

definition accumulating3 :: "real psd" where
  "accumulating3 = \<lparr>sampleCount = 2, sampleFrequency = 8, segmentCount = 2, bins = [4, 6, 7]\<rparr>"

definition idle3 :: "real psd" where
  "idle3 = \<lparr>sampleCount = 2, sampleFrequency = 8, segmentCount = 0, bins = [4, 6, 7]\<rparr>"

definition idle4 :: "real psd" where
  "idle4 = \<lparr>sampleCount = 2, sampleFrequency = 4, segmentCount = 0, bins = [9, 9, 9, 9]\<rparr>"

definition accumulating4 :: "real psd" where
  "accumulating4 = \<lparr>sampleCount = 2, sampleFrequency = 4, segmentCount = 1, bins = [9, 9, 9, 9]\<rparr>"

subsection \<open>Sequences of calls\<close>

text \<open>
  The calls a client can make between two calls of \<open>setup\<close>, and their execution in
  order; the first fault ends the run.
\<close>

datatype call = Clear | ComputeSegment "16 word list" | GetResult

fun run_call :: "'d arith \<Rightarrow> 'd engine \<Rightarrow> call \<Rightarrow> 'd psd \<Rightarrow> fault + 'd psd" where
  "run_call F E Clear s = clear F s"
| "run_call F E (ComputeSegment samples) s = computeSegment F E samples s"
| "run_call F E GetResult s = getResult F s"

fun run :: "'d arith \<Rightarrow> 'd engine \<Rightarrow> call list \<Rightarrow> 'd psd \<Rightarrow> fault + 'd psd" where
  "run F E [] s = Inr s"
| "run F E (c # cs) s =
     (case run_call F E c s of Inl e \<Rightarrow> Inl e | Inr s' \<Rightarrow> run F E cs s')"

definition full4 :: "real psd" where
  "full4 = \<lparr>sampleCount = 4, sampleFrequency = 4, segmentCount = 3, bins = [9, 9, 9, 9]\<rparr>"

subsection \<open>The mean of a segment, exact and truncated\<close>

text \<open>
  The arithmetic mean of the first \<open>count\<close> samples as the specification words it, a
  real number, and the same mean truncated towards zero, as the conversion of a C++
  double to an integer type does.
\<close>

definition exact_mean :: "16 word list \<Rightarrow> nat \<Rightarrow> real" where
  "exact_mean samples count =
     real_of_int (sum_list (map sint (take count samples))) / real count"

definition truncated_mean :: "16 word list \<Rightarrow> nat \<Rightarrow> int" where
  "truncated_mean samples count =
     (let k = sum_list (map sint (take count samples))
      in sgn k * (\<bar>k\<bar> div int count))"

subsection \<open>Arithmetic with the rounding of a double\<close>

text \<open>
  IEEE 754 binary64 arithmetic on its normal range: every operation returns the exact
  result rounded to the nearest number with a significand of 53 bits, ties to the even
  significand. Subnormal numbers, overflow, infinities, NaN and the sign of zero are
  left out; the evaluations below stay far from them and never divide by 0.

  \<open>binade fuel x e\<close> halves or doubles a positive \<open>x\<close> until it is in \<open>[1, 2)\<close> and
  counts the steps in \<open>e\<close>; a fuel of 2100 is more than the exponent range of a double.
\<close>

fun binade :: "nat \<Rightarrow> real \<Rightarrow> int \<Rightarrow> int" where
  "binade 0 x e = e"
| "binade (Suc fuel) x e =
     (if 2 \<le> x then binade fuel (x / 2) (e + 1)
      else if x < 1 then binade fuel (x * 2) (e - 1)
      else e)"

definition round_half_even :: "real \<Rightarrow> int" where
  "round_half_even x =
     (let f = \<lfloor>x\<rfloor>; r = x - real_of_int f
      in if r < 1 / 2 then f else if 1 / 2 < r then f + 1
         else if even f then f else f + 1)"

definition round53 :: "real \<Rightarrow> real" where
  "round53 x =
     (if x = 0 then 0
      else let e = binade 2100 \<bar>x\<bar> 0;
               ulp = (if 52 \<le> e then 2 ^ nat (e - 52) else 1 / 2 ^ nat (52 - e))
           in sgn x * real_of_int (round_half_even (\<bar>x\<bar> / ulp)) * ulp)"





section \<open>The loops\<close>

lemma update_loop_append:
  "update_loop f (xs @ ys) b =
     (case update_loop f xs b of Inl e \<Rightarrow> Inl e | Inr b' \<Rightarrow> update_loop f ys b')"
  by (induction xs arbitrary: b) auto

lemma update_loop_upt:
  "n \<le> length b \<Longrightarrow>
   update_loop f [0..<n] b = Inr (map (\<lambda>i. if i < n then f i (b ! i) else b ! i) [0..<length b])"
proof (induction n)
  case 0
  show ?case by (simp add: map_nth)
next
  case (Suc n)
  let ?b = "map (\<lambda>i. if i < n then f i (b ! i) else b ! i) [0..<length b]"
  from Suc have step: "update_loop f [0..<n] b = Inr ?b" by simp
  have n: "n < length b" using Suc.prems by simp
  have "?b[n := f n (?b ! n)] =
        map (\<lambda>i. if i < Suc n then f i (b ! i) else b ! i) [0..<length b]"
  proof (rule nth_equalityI)
    show "length (?b[n := f n (?b ! n)]) = length (map (\<lambda>i. if i < Suc n then f i (b ! i) else b ! i) [0..<length b])"
      by simp
  next
    fix i assume "i < length (?b[n := f n (?b ! n)])"
    then have i: "i < length b" by simp
    show "?b[n := f n (?b ! n)] ! i = map (\<lambda>i. if i < Suc n then f i (b ! i) else b ! i) [0..<length b] ! i"
      using i n by (cases "i = n") (simp_all add: nth_list_update less_Suc_eq)
  qed
  with n show ?case
    by (simp add: update_loop_append step del: upt_Suc add: upt_Suc_append)
qed

lemma update_loop_overrun:
  "length b < n \<Longrightarrow> update_loop f [0..<n] b = Inl OutOfBounds"
proof (induction n)
  case 0
  then show ?case by simp
next
  case (Suc n)
  show ?case
  proof (cases "length b < n")
    case True
    with Suc.IH show ?thesis by (simp add: update_loop_append)
  next
    case False
    with Suc.prems have "n = length b" by simp
    then show ?thesis by (simp add: update_loop_append update_loop_upt)
  qed
qed

lemma update_loop_Inr:
  "update_loop f [0..<n] b = Inr b' \<longleftrightarrow>
   n \<le> length b \<and> b' = map (\<lambda>i. if i < n then f i (b ! i) else b ! i) [0..<length b]"
proof (cases "n \<le> length b")
  case True
  then show ?thesis by (auto simp: update_loop_upt)
next
  case False
  then show ?thesis by (simp add: update_loop_overrun)
qed

lemma sum_loop_append:
  "sum_loop F xs (is @ js) a =
     (case sum_loop F xs is a of Inl e \<Rightarrow> Inl e | Inr a' \<Rightarrow> sum_loop F xs js a')"
  by (induction "is" arbitrary: a) auto

lemma sum_loop_upt:
  "n \<le> length xs \<Longrightarrow>
   sum_loop F xs [0..<n] a =
     Inr (foldl (\<lambda>acc x. fp_add F acc (from_int F (sint x))) a (take n xs))"
proof (induction n)
  case 0
  show ?case by simp
next
  case (Suc n)
  then have "n < length xs" by simp
  with Suc.IH show ?case
    by (simp add: sum_loop_append take_Suc_conv_app_nth)
qed

lemma sum_loop_overrun:
  "length xs < n \<Longrightarrow> sum_loop F xs [0..<n] a = Inl OutOfBounds"
proof (induction n)
  case 0
  then show ?case by simp
next
  case (Suc n)
  show ?case
  proof (cases "length xs < n")
    case True
    with Suc.IH show ?thesis by (simp add: sum_loop_append)
  next
    case False
    with Suc.prems have "n = length xs" by simp
    then show ?thesis by (simp add: sum_loop_append sum_loop_upt)
  qed
qed

lemma getAverage_ok:
  "0 < n \<Longrightarrow> n \<le> length xs \<Longrightarrow> getAverage F xs n = Inr (average_of F xs n)"
  by (simp add: getAverage_def sum_loop_upt average_of_def)

lemma getAverage_zero: "getAverage F xs 0 = Inl AssertionFailed"
  by (simp add: getAverage_def)

lemma getAverage_overrun: "length xs < n \<Longrightarrow> getAverage F xs n = Inl OutOfBounds"
  by (simp add: getAverage_def sum_loop_overrun)

lemma clear_ok:
  "sampleCount s \<le> length (bins s) \<Longrightarrow>
   clear F s = Inr (s\<lparr>bins := map (\<lambda>i. if i < sampleCount s then from_int F 0 else bins s ! i)
                                [0..<length (bins s)]\<rparr>)"
  by (simp add: clear_def update_loop_upt)

lemma clear_overrun: "length (bins s) < sampleCount s \<Longrightarrow> clear F s = Inl OutOfBounds"
  by (simp add: clear_def update_loop_overrun)

lemma computeSegment_ok:
  assumes "0 < sampleCount s" "sampleCount s \<le> length (bins s)"
    "sampleCount s \<le> length samples"
  shows "computeSegment F E samples s =
    Inr (s\<lparr>bins :=
             map (\<lambda>i. if i < sampleCount s
                      then fp_add F (if segmentCount s = 0 then from_int F 0 else bins s ! i)
                             (contribution F E samples (sampleCount s) (sampleFrequency s) i)
                      else bins s ! i)
               [0..<length (bins s)],
           segmentCount := segmentCount s + 1\<rparr>)"
proof (cases "segmentCount s = 0")
  case True
  let ?s1 = "s\<lparr>bins := map (\<lambda>i. if i < sampleCount s then from_int F 0 else bins s ! i)
                                [0..<length (bins s)]\<rparr>"
  have c: "clear F s = Inr ?s1" using assms by (simp add: clear_ok)
  have b: "map (\<lambda>i. if i < sampleCount s
                then fp_add F (bins ?s1 ! i) (contribution F E samples (sampleCount s) (sampleFrequency s) i)
                else bins ?s1 ! i) [0..<length (bins s)] =
           map (\<lambda>i. if i < sampleCount s
                then fp_add F (from_int F 0) (contribution F E samples (sampleCount s) (sampleFrequency s) i)
                else bins s ! i) [0..<length (bins s)]"
    by (rule map_cong) auto
  show ?thesis
    using assms True b
    by (simp add: computeSegment_def c getAverage_ok fill_buffers_def update_loop_upt
        contribution_def)
next
  case False
  with assms show ?thesis
    by (simp add: computeSegment_def getAverage_ok fill_buffers_def update_loop_upt
        contribution_def)
qed

lemma getResult_ok:
  assumes "0 < segmentCount s" "sampleCount s \<le> length (bins s)"
  shows "getResult F s =
    Inr (s\<lparr>bins :=
             map (\<lambda>i. if i < sampleCount s
                      then fp_mul F (fp_mul F (fp_div F (bins s ! i) (from_size F (segmentCount s)))
                             (windowCorrection F)) (windowCorrection F)
                      else bins s ! i)
               [0..<length (bins s)],
           segmentCount := 0\<rparr>)"
  using assms by (simp add: getResult_def update_loop_upt)

lemma getResult_idle: "segmentCount s = 0 \<Longrightarrow> getResult F s = Inr s"
  by (simp add: getResult_def)

lemma computeSegment_result:
  assumes "0 < sampleCount s" and "sampleCount s \<le> length (bins s)"
    and "sampleCount s \<le> length samples"
  shows "\<exists>s'. computeSegment F E samples s = Inr s' \<and>
    segmentCount s' = segmentCount s + 1 \<and>
    sampleCount s' = sampleCount s \<and>
    sampleFrequency s' = sampleFrequency s \<and>
    length (bins s') = length (bins s) \<and>
    (\<forall>i. i < sampleCount s \<longrightarrow>
           bins s' ! i =
             fp_add F (if segmentCount s = 0 then from_int F 0 else bins s ! i)
               (contribution F E samples (sampleCount s) (sampleFrequency s) i)) \<and>
    (\<forall>i. sampleCount s \<le> i \<and> i < length (bins s) \<longrightarrow> bins s' ! i = bins s ! i)"
proof -
  have "\<And>i. i < sampleCount s \<Longrightarrow> i < length (bins s)"
    using assms(2) by simp
  then show ?thesis
    by (simp add: computeSegment_ok [OF assms])
qed

lemma update_loop_frame:
  assumes "update_loop f [0..<n] b = Inr b'"
  shows "n \<le> length b \<and> length b' = length b \<and> drop n b' = drop n b"
proof -
  from assms have n: "n \<le> length b"
    and b': "b' = map (\<lambda>i. if i < n then f i (b ! i) else b ! i) [0..<length b]"
    by (simp_all add: update_loop_Inr)
  have "drop n b' = drop n b"
    unfolding b' by (rule nth_equalityI) simp_all
  with n b' show ?thesis by simp
qed

lemma clear_frame:
  assumes "clear F s = Inr s'"
  shows "sampleCount s' = sampleCount s \<and> sampleFrequency s' = sampleFrequency s \<and>
    segmentCount s' = segmentCount s \<and> length (bins s') = length (bins s) \<and>
    drop (sampleCount s) (bins s') = drop (sampleCount s) (bins s)"
proof -
  from assms obtain b where b: "update_loop (\<lambda>idx x. from_int F 0) [0..<sampleCount s] (bins s) = Inr b"
    and s': "s' = s\<lparr>bins := b\<rparr>"
    by (auto simp: clear_def split: sum.splits)
  from update_loop_frame [OF b] s' show ?thesis by simp
qed

lemma getResult_frame:
  assumes "getResult F s = Inr s'"
  shows "sampleCount s' = sampleCount s \<and> sampleFrequency s' = sampleFrequency s \<and>
    length (bins s') = length (bins s) \<and>
    drop (sampleCount s) (bins s') = drop (sampleCount s) (bins s)"
proof (cases "0 < segmentCount s")
  case True
  with assms obtain b where
    b: "update_loop
          (\<lambda>idx x. fp_mul F (fp_mul F (fp_div F x (from_size F (segmentCount s)))
                       (windowCorrection F)) (windowCorrection F))
          [0..<sampleCount s] (bins s) = Inr b"
    and s': "s' = s\<lparr>bins := b, segmentCount := 0\<rparr>"
    by (auto simp: getResult_def split: sum.splits)
  from update_loop_frame [OF b] s' show ?thesis by simp
next
  case False
  with assms show ?thesis by (simp add: getResult_def)
qed

lemma computeSegment_frame:
  assumes "computeSegment F E samples s = Inr s'"
  shows "sampleCount s' = sampleCount s \<and> sampleFrequency s' = sampleFrequency s \<and>
    length (bins s') = length (bins s) \<and>
    drop (sampleCount s) (bins s') = drop (sampleCount s) (bins s)"
proof -
  from assms obtain s1 where s1: "(if segmentCount s = 0 then clear F s else Inr s) = Inr s1"
    by (auto simp: computeSegment_def split: sum.splits)
  have f1: "sampleCount s1 = sampleCount s \<and> sampleFrequency s1 = sampleFrequency s \<and>
    length (bins s1) = length (bins s) \<and>
    drop (sampleCount s) (bins s1) = drop (sampleCount s) (bins s)"
    using s1 clear_frame [of F s s1] by (auto split: if_splits)
  from assms s1 obtain b where
    b: "update_loop
          (\<lambda>idx x. fp_add F x
             (bin_power F
                (magnitude E
                   (projr (fill_buffers F samples (projr (getAverage F samples (sampleCount s1)))
                      (sampleCount s1) (length (bins s1))))
                   (sampleCount s1))
                (sampleFrequency s1) (sampleCount s1) idx))
          [0..<sampleCount s1] (bins s1) = Inr b"
    and s': "s' = s1\<lparr>bins := b, segmentCount := segmentCount s1 + 1\<rparr>"
    by (auto simp: computeSegment_def split: sum.splits)
  from update_loop_frame [OF b] s' f1 show ?thesis by simp
qed

lemma run_call_frame:
  assumes "run_call F E c s = Inr s'"
  shows "sampleCount s' = sampleCount s \<and> length (bins s') = length (bins s) \<and>
    drop (sampleCount s) (bins s') = drop (sampleCount s) (bins s)"
  using assms clear_frame [of F s s'] getResult_frame [of F s s']
    computeSegment_frame [of F E _ s s']
  by (cases c) simp_all

lemma run_frame:
  "run F E calls s = Inr s' \<Longrightarrow>
   sampleCount s' = sampleCount s \<and> length (bins s') = length (bins s) \<and>
   drop (sampleCount s) (bins s') = drop (sampleCount s) (bins s)"
proof (induction calls arbitrary: s)
  case Nil
  then show ?case by simp
next
  case (Cons c cs)
  then obtain s1 where c: "run_call F E c s = Inr s1" and cs: "run F E cs s1 = Inr s'"
    by (auto split: sum.splits)
  from run_call_frame [OF c] Cons.IH [OF cs] show ?case by simp
qed

lemma getAverage_take:
  "n \<le> length xs \<Longrightarrow> getAverage F (take n xs) n = getAverage F xs n"
  by (cases "n = 0") (simp_all add: getAverage_zero getAverage_ok average_of_def)

lemma fill_buffers_take:
  "n \<le> length xs \<Longrightarrow> fill_buffers F (take n xs) a n cap = fill_buffers F xs a n cap"
  by (simp add: fill_buffers_def)

lemma lazy_clear_sampleCount:
  "(if segmentCount s = 0 then clear F s else Inr s) = Inr s1 \<Longrightarrow> sampleCount s1 = sampleCount s"
  using clear_frame [of F s s1] by (auto split: if_splits)

lemma computeSegment_take:
  assumes "sampleCount s \<le> length samples"
  shows "computeSegment F E samples s = computeSegment F E (take (sampleCount s) samples) s"
proof (cases "if segmentCount s = 0 then clear F s else Inr s")
  case (Inl e)
  then show ?thesis by (simp add: computeSegment_def)
next
  case (Inr s1)
  then have n: "sampleCount s1 = sampleCount s" by (rule lazy_clear_sampleCount)
  show ?thesis
    using assms
    by (simp add: computeSegment_def Inr n getAverage_take fill_buffers_take
        cong: sum.case_cong)
qed

lemma computeSegment_short:
  assumes "length samples < sampleCount s"
  shows "computeSegment F E samples s = Inl OutOfBounds"
proof (cases "if segmentCount s = 0 then clear F s else Inr s")
  case (Inl e)
  then have "segmentCount s = 0" and c: "clear F s = Inl e"
    by (auto split: if_splits)
  from c have "e = OutOfBounds"
    by (cases "sampleCount s \<le> length (bins s)") (simp_all add: clear_ok clear_overrun)
  with Inl show ?thesis by (simp add: computeSegment_def)
next
  case (Inr s1)
  then have n: "sampleCount s1 = sampleCount s" by (rule lazy_clear_sampleCount)
  show ?thesis
    using assms by (simp add: computeSegment_def Inr n getAverage_overrun)
qed

lemma computeSegment_after_setup_zero:
  "computeSegment F E samples (setup_psd 0 fs s) = Inl AssertionFailed"
  by (simp add: computeSegment_def setup_psd_def clear_def getAverage_zero)

lemma computeSegment_after_setup_overrun:
  "length (bins s) < n \<Longrightarrow> computeSegment F E samples (setup_psd n fs s) = Inl OutOfBounds"
  by (simp add: computeSegment_def setup_psd_def clear_overrun)

lemma foldl_exact_sum:
  "foldl (\<lambda>acc x. fp_add exact acc (from_int exact (sint x))) a ys =
   a + real_of_int (sum_list (map sint ys))"
  by (induction ys arbitrary: a) (simp_all add: exact_def)

lemma truncate_quotient:
  assumes "0 < n"
  shows "(if 0 \<le> real_of_int k / real n then \<lfloor>real_of_int k / real n\<rfloor>
          else \<lceil>real_of_int k / real n\<rceil>) = sgn k * (\<bar>k\<bar> div int n)"
proof -
  have r: "real n = real_of_int (int n)" by simp
  show ?thesis
  proof (cases "0 \<le> k")
    case True
    with assms have "0 \<le> real_of_int k / real n" by simp
    with True show ?thesis
      by (simp only: r floor_divide_of_int_eq if_True) (simp add: sgn_if)
  next
    case False
    with assms have "\<not> 0 \<le> real_of_int k / real n"
      by (simp add: divide_less_0_iff not_le)
    with False show ?thesis
      by (simp only: r ceiling_divide_eq_div if_False) (simp add: sgn_if)
  qed
qed

lemma sum_list_sint_bounds:
  fixes ys :: "16 word list"
  shows "- (32768 * int (length ys)) \<le> sum_list (map sint ys) \<and>
         sum_list (map sint ys) \<le> 32767 * int (length ys)"
proof (induction ys)
  case Nil
  show ?case by simp
next
  case (Cons y ys)
  have "- 32768 \<le> sint y" "sint y < 32768"
    using sint_ge [of y] sint_lt [of y] by simp_all
  with Cons show ?case by simp
qed

lemma truncated_mean_range:
  assumes "0 < n" and "n \<le> length samples"
  shows "- 32768 \<le> truncated_mean samples n \<and> truncated_mean samples n < 32768"
proof -
  let ?S = "sum_list (map sint (take n samples))"
  have len: "length (take n samples) = n" using assms(2) by simp
  from sum_list_sint_bounds [of "take n samples"] len
  have lo: "- (32768 * int n) \<le> ?S" and hi: "?S \<le> 32767 * int n" by simp_all
  have n: "0 < int n" using assms(1) by simp
  show ?thesis
  proof (cases "0 \<le> ?S")
    case True
    have "?S div int n \<le> (32767 * int n) div int n"
      using hi n by (intro zdiv_mono1) simp_all
    moreover have "0 \<le> ?S div int n"
      using True n by (simp add: pos_imp_zdiv_nonneg_iff)
    ultimately show ?thesis
      using True n by (simp add: truncated_mean_def Let_def sgn_if)
  next
    case False
    have "(- ?S) div int n \<le> (32768 * int n) div int n"
      using lo n by (intro zdiv_mono1) simp_all
    moreover have "0 \<le> (- ?S) div int n"
      using False n by (simp add: pos_imp_zdiv_nonneg_iff)
    ultimately show ?thesis
      using False n by (simp add: truncated_mean_def Let_def sgn_if)
  qed
qed

lemma average_of_exact:
  assumes "0 < n" and "n \<le> length samples"
  shows "sint (average_of exact samples n) = truncated_mean samples n"
proof -
  have "average_of exact samples n =
        word_of_int (truncated_mean samples n)"
    using truncate_quotient [OF assms(1), of "sum_list (map sint (take n samples))"]
    by (simp add: average_of_def foldl_exact_sum truncated_mean_def Let_def)
       (simp add: exact_def)
  moreover have "sint (word_of_int (truncated_mean samples n) :: 16 word) =
      signed_take_bit 15 (truncated_mean samples n)"
    by (simp add: sint_sbintrunc')
  moreover have "signed_take_bit 15 (truncated_mean samples n) = truncated_mean samples n"
    using truncated_mean_range [OF assms]
    by (intro signed_take_bit_int_eq_self) simp_all
  ultimately show ?thesis by simp
qed




lemma binade_numeral:
  "binade (numeral k) x e =
     (if 2 \<le> x then binade (pred_numeral k) (x / 2) (e + 1)
      else if x < 1 then binade (pred_numeral k) (x * 2) (e - 1)
      else e)"
  by (simp add: numeral_eq_Suc)

lemmas round53_eval = round53_def round_half_even_def binade_numeral Let_def

text \<open>The doubles nearest to 0.09 and to 1.59, and three integers, which are doubles.\<close>

lemma round53_examples:
  "round53 (9 / 100) = 3242591731706757 / 36028797018963968"
  "round53 (159 / 100) = 7160723407519089 / 4503599627370496"
  "round53 7 = 7" "round53 (-3) = -3" "round53 0 = 0"
  by (simp_all add: round53_eval)















section \<open>The claims\<close>

text \<open>
  C1. When the segment counter is positive (and the configured length fits the
  accumulator), \<open>getResult\<close> returns normally, replaces each of the first
  \<open>sampleCount\<close> entries by the entry divided by the counter and multiplied by the
  window correction twice, and sets the counter to 0. When the counter is 0 it returns
  the state as it is.
\<close>

theorem C1_getResult_averages:
  "(0 < segmentCount s \<and> sampleCount s \<le> length (bins s) \<longrightarrow>
      (\<exists>s'. getResult F s = Inr s' \<and> segmentCount s' = 0 \<and>
            sampleCount s' = sampleCount s \<and> sampleFrequency s' = sampleFrequency s \<and>
            length (bins s') = length (bins s) \<and>
            (\<forall>i. i < sampleCount s \<longrightarrow>
               bins s' ! i =
                 fp_mul F (fp_mul F (fp_div F (bins s ! i) (from_size F (segmentCount s)))
                   (windowCorrection F)) (windowCorrection F)))) \<and>
   (segmentCount s = 0 \<longrightarrow> getResult F s = Inr s)"
  by (simp add: getResult_ok getResult_idle)

theorem C1_getResult_averages_witness:
  "0 < segmentCount accumulating3 \<and> sampleCount accumulating3 \<le> length (bins accumulating3) \<and>
   (\<exists>s'. getResult exact accumulating3 = Inr s' \<and> segmentCount s' = 0 \<and>
         bins s' ! 0 = 4 / 2 * (159 / 100)\<^sup>2 \<and> bins s' ! 1 = 6 / 2 * (159 / 100)\<^sup>2) \<and>
   segmentCount idle3 = 0 \<and> getResult exact idle3 = Inr idle3"
  using C1_getResult_averages [of accumulating3 exact] C1_getResult_averages [of idle3 exact]
  by (simp add: accumulating3_def idle3_def exact_def windowCorrection_def power2_eq_square getResult_def upt_rec)



text \<open>
  C3. On a configured estimator and a segment that is long enough: when the segment
  counter is 0, the new entry \<open>i\<close> for \<open>i < sampleCount\<close> is 0 plus the power the
  segment contributes to bin \<open>i\<close>, and the call gives the same first \<open>sampleCount\<close>
  entries whatever the accumulator held before; when the counter is positive, the new
  entry is the old entry plus that power.
\<close>

theorem C3_lazy_clear:
  assumes "0 < sampleCount s" and "sampleCount s \<le> length (bins s)"
    and "sampleCount s \<le> length samples"
  shows "(segmentCount s = 0 \<longrightarrow>
      (\<exists>s'. computeSegment F E samples s = Inr s' \<and>
         (\<forall>i. i < sampleCount s \<longrightarrow>
            bins s' ! i =
              fp_add F (from_int F 0)
                (contribution F E samples (sampleCount s) (sampleFrequency s) i)) \<and>
         (\<forall>b. length b = length (bins s) \<longrightarrow>
            (\<exists>t'. computeSegment F E samples (s\<lparr>bins := b\<rparr>) = Inr t' \<and>
               take (sampleCount s) (bins t') = take (sampleCount s) (bins s'))))) \<and>
    (0 < segmentCount s \<longrightarrow>
      (\<exists>s'. computeSegment F E samples s = Inr s' \<and>
         (\<forall>i. i < sampleCount s \<longrightarrow>
            bins s' ! i =
              fp_add F (bins s ! i)
                (contribution F E samples (sampleCount s) (sampleFrequency s) i))))"
proof -
  from computeSegment_result [OF assms, of F E]
  obtain s' where s': "computeSegment F E samples s = Inr s'"
    "length (bins s') = length (bins s)"
    "\<And>i. i < sampleCount s \<Longrightarrow>
           bins s' ! i =
             fp_add F (if segmentCount s = 0 then from_int F 0 else bins s ! i)
               (contribution F E samples (sampleCount s) (sampleFrequency s) i)"
    by blast
  have other: "\<exists>t'. computeSegment F E samples (s\<lparr>bins := b\<rparr>) = Inr t' \<and>
               take (sampleCount s) (bins t') = take (sampleCount s) (bins s')"
    if idle: "segmentCount s = 0" and len: "length b = length (bins s)" for b
  proof -
    let ?t = "s\<lparr>bins := b\<rparr>"
    have t: "0 < sampleCount ?t" "sampleCount ?t \<le> length (bins ?t)"
      "sampleCount ?t \<le> length samples"
      using assms len by simp_all
    from computeSegment_result [OF t, of F E]
    obtain t' where t': "computeSegment F E samples ?t = Inr t'"
      "length (bins t') = length (bins ?t)"
      "\<And>i. i < sampleCount ?t \<Longrightarrow>
           bins t' ! i =
             fp_add F (if segmentCount ?t = 0 then from_int F 0 else bins ?t ! i)
               (contribution F E samples (sampleCount ?t) (sampleFrequency ?t) i)"
      by blast
    have "take (sampleCount s) (bins t') = take (sampleCount s) (bins s')"
      using t'(2,3) s'(2,3) idle len assms(2) by (simp add: list_eq_iff_nth_eq)
    with t'(1) show ?thesis by blast
  qed
  show ?thesis
    using s' other by auto
qed

theorem C3_lazy_clear_witness:
  "0 < sampleCount idle4 \<and> sampleCount idle4 \<le> length (bins idle4) \<and>
   sampleCount idle4 \<le> length [3, 6 :: 16 word] \<and> segmentCount idle4 = 0 \<and>
   computeSegment exact passthrough [3, 6] idle4 =
     Inr \<lparr>sampleCount = 2, sampleFrequency = 4, segmentCount = 1,
          bins = [0 + 1 * 1 / 4 / 2, 0 + 2 * 2 / 4 / 2 * 2, 9, 9]\<rparr> \<and>
   computeSegment exact passthrough [3, 6] (idle4\<lparr>bins := [5, 6, 7, 8]\<rparr>) =
     Inr \<lparr>sampleCount = 2, sampleFrequency = 4, segmentCount = 1,
          bins = [0 + 1 * 1 / 4 / 2, 0 + 2 * 2 / 4 / 2 * 2, 7, 8]\<rparr> \<and>
   0 < sampleCount accumulating4 \<and> sampleCount accumulating4 \<le> length (bins accumulating4) \<and>
   sampleCount accumulating4 \<le> length [3, 6 :: 16 word] \<and> 0 < segmentCount accumulating4 \<and>
   computeSegment exact passthrough [3, 6] accumulating4 =
     Inr \<lparr>sampleCount = 2, sampleFrequency = 4, segmentCount = 2,
          bins = [9 + 1 * 1 / 4 / 2, 9 + 2 * 2 / 4 / 2 * 2, 9, 9]\<rparr>"
proof -
  have h0: "0 < sampleCount idle4" "sampleCount idle4 \<le> length (bins idle4)"
    "sampleCount idle4 \<le> length [3, 6 :: 16 word]"
    by (simp_all add: idle4_def)
  have h1: "0 < sampleCount accumulating4" "sampleCount accumulating4 \<le> length (bins accumulating4)"
    "sampleCount accumulating4 \<le> length [3, 6 :: 16 word]"
    by (simp_all add: accumulating4_def)
  have avg: "getAverage exact [3, 6] 2 = Inr 4"
    by (simp add: getAverage_def exact_def windowCorrection_def upt_rec)
  have mag: "magnitude passthrough ([-1, 2], replicate 2 0) 2 = [1, 2]"
    by (simp add: magnitude_def passthrough_def)
  show ?thesis
    using h0 h1 avg mag C3_lazy_clear [OF h0, of exact passthrough]
      C3_lazy_clear [OF h1, of exact passthrough]
    by (simp add: computeSegment_def clear_def idle4_def accumulating4_def fill_buffers_def
        upt_rec bin_power_def exact_def windowCorrection_def)
qed

text \<open>
  C4, as the claim states it, fails: \<open>setup\<close> with a length of 5 on an accumulator of 4
  entries and with a frequency of 0 stores both, and the next \<open>computeSegment\<close> writes
  outside the accumulator.
\<close>

theorem C4_invalid_configuration_stored:
  "length (bins full4) = 4 \<and>
   sampleCount (setup_psd 5 0 full4) = 5 \<and> sampleFrequency (setup_psd 5 0 full4) = 0 \<and>
   computeSegment exact passthrough [1, 2, 3, 4, 5] (setup_psd 5 0 full4) = Inl OutOfBounds"
  by (simp add: full4_def setup_psd_def computeSegment_def clear_def upt_rec)

text \<open>
  C4, amended. \<open>setup\<close> checks nothing: it stores every length and every frequency and
  sets the counter to 0. A length of 0 is met by the assertion of \<open>getAverage\<close> in the
  next \<open>computeSegment\<close>, and a length above the capacity makes the next
  \<open>computeSegment\<close> write outside the accumulator.
\<close>

theorem C4_setup_stores_unchecked:
  "sampleCount (setup_psd n fs s) = n \<and> sampleFrequency (setup_psd n fs s) = fs \<and>
   segmentCount (setup_psd n fs s) = 0 \<and>
   (n = 0 \<longrightarrow> computeSegment F E samples (setup_psd n fs s) = Inl AssertionFailed) \<and>
   (length (bins s) < n \<longrightarrow>
      computeSegment F E samples (setup_psd n fs s) = Inl OutOfBounds)"
  by (simp add: computeSegment_after_setup_zero computeSegment_after_setup_overrun)
    (simp add: setup_psd_def)

theorem C4_setup_stores_unchecked_witness:
  "sampleCount (setup_psd 0 0 full4) = 0 \<and> sampleFrequency (setup_psd 0 0 full4) = 0 \<and>
   computeSegment exact passthrough [1, 2] (setup_psd 0 0 full4) = Inl AssertionFailed \<and>
   length (bins full4) < 5 \<and> sampleCount (setup_psd 5 8 full4) = 5 \<and>
   computeSegment exact passthrough [1, 2, 3, 4, 5] (setup_psd 5 8 full4) = Inl OutOfBounds"
proof -
  have h: "length (bins full4) < 5" by (simp add: full4_def)
  from C4_setup_stores_unchecked [of 0 0 full4 exact passthrough "[1, 2]"]
    C4_setup_stores_unchecked [of 5 8 full4 exact passthrough "[1, 2, 3, 4, 5]"] h
  show ?thesis by simp
qed

text \<open>
  C5, as the claim states it, fails: \<open>getAverage\<close> casts the mean back to \<open>int16_t\<close>.
  For the segment 0, 1 the mean is 1/2 and \<open>getAverage\<close> returns 0, so the signal
  handed to the engine is 0, 1 and not -1/2, 1/2. On this input the sum and the
  quotient are exact in IEEE arithmetic as well.
\<close>

theorem C5_mean_is_truncated_example:
  "exact_mean [0, 1] 2 = 1 / 2 \<and> getAverage exact [0, 1] 2 = Inr 0 \<and>
   real_of_int (sint (0 :: 16 word)) \<noteq> exact_mean [0, 1] 2 \<and>
   fill_buffers exact [0, 1] 0 2 2 = Inr ([0, 1], [0, 0])"
  by (simp add: exact_mean_def getAverage_def fill_buffers_def exact_def windowCorrection_def upt_rec
      numeral_2_eq_2)

text \<open>
  C5, amended. With the arithmetic on double taken exact (the sum of the samples is
  exact in a double), the DC estimate that \<open>getAverage\<close> returns for a segment is the
  arithmetic mean truncated towards zero to an integer; it differs from the mean by
  less than 1, and \<open>computeSegment\<close> subtracts it from each sample in integer
  arithmetic before the conversion to double.
\<close>

theorem C5_mean_truncated_towards_zero:
  assumes "0 < n" and "n \<le> length samples"
  shows "\<exists>average. getAverage exact samples n = Inr average \<and>
    sint average = truncated_mean samples n \<and>
    \<bar>exact_mean samples n - real_of_int (sint average)\<bar> < 1 \<and>
    (\<forall>cap. n \<le> cap \<longrightarrow>
       fill_buffers exact samples average n cap =
         Inr (map (\<lambda>idx. real_of_int (sint (samples ! idx) - truncated_mean samples n)) [0..<n],
              replicate n 0))"
proof -
  let ?S = "sum_list (map sint (take n samples))"
  have avg: "getAverage exact samples n = Inr (average_of exact samples n)"
    using assms by (rule getAverage_ok)
  have tr: "sint (average_of exact samples n) = truncated_mean samples n"
    using assms by (rule average_of_exact)
  have n: "0 < int n" using assms(1) by simp
  have near: "\<bar>exact_mean samples n - real_of_int (truncated_mean samples n)\<bar> < 1"
  proof -
    have "\<bar>?S - int n * truncated_mean samples n\<bar> < int n"
    proof (cases "0 \<le> ?S")
      case True
      then have "truncated_mean samples n = ?S div int n"
        by (simp add: truncated_mean_def Let_def sgn_if)
      moreover have "?S - int n * (?S div int n) = ?S mod int n"
        by (simp add: minus_mult_div_eq_mod)
      ultimately show ?thesis using n by simp
    next
      case False
      then have "truncated_mean samples n = - ((- ?S) div int n)"
        by (simp add: truncated_mean_def Let_def sgn_if)
      moreover have "(- ?S) - int n * ((- ?S) div int n) = (- ?S) mod int n"
        by (simp add: minus_mult_div_eq_mod)
      ultimately have "?S - int n * truncated_mean samples n = - ((- ?S) mod int n)"
        by simp
      then show ?thesis using n by simp
    qed
    then have "\<bar>real_of_int ?S - real n * real_of_int (truncated_mean samples n)\<bar> < real n"
      by (metis (no_types, opaque_lifting) of_int_abs of_int_diff of_int_less_iff
          of_int_mult of_int_of_nat_eq)
    then have "\<bar>(real_of_int ?S - real n * real_of_int (truncated_mean samples n)) / real n\<bar> < 1"
      using assms(1) by simp
    then show ?thesis
      using assms(1) by (simp add: exact_mean_def diff_divide_distrib)
  qed
  have fb: "fill_buffers exact samples (average_of exact samples n) n cap =
         Inr (map (\<lambda>idx. real_of_int (sint (samples ! idx) - truncated_mean samples n)) [0..<n],
              replicate n 0)" if "n \<le> cap" for cap
    using that assms(2) by (simp add: fill_buffers_def tr) (simp add: exact_def windowCorrection_def)
  have "getAverage exact samples n = Inr (average_of exact samples n) \<and>
    sint (average_of exact samples n) = truncated_mean samples n \<and>
    \<bar>exact_mean samples n - real_of_int (sint (average_of exact samples n))\<bar> < 1 \<and>
    (\<forall>cap. n \<le> cap \<longrightarrow>
       fill_buffers exact samples (average_of exact samples n) n cap =
         Inr (map (\<lambda>idx. real_of_int (sint (samples ! idx) - truncated_mean samples n)) [0..<n],
              replicate n 0))"
    using avg tr near fb by simp
  then show ?thesis by (rule exI)
qed

theorem C5_mean_truncated_towards_zero_witness:
  "(0::nat) < 2 \<and> 2 \<le> length [-1, -2 :: 16 word] \<and>
   getAverage exact [-1, -2] 2 = Inr (-1) \<and> truncated_mean [-1, -2] 2 = -1 \<and>
   exact_mean [-1, -2] 2 = -3 / 2"
proof -
  have h: "(0::nat) < 2" "2 \<le> length [-1, -2 :: 16 word]" by simp_all
  from C5_mean_truncated_towards_zero [OF h] h show ?thesis
    by (simp add: truncated_mean_def exact_mean_def getAverage_def exact_def windowCorrection_def upt_rec)
qed

text \<open>
  C6. A second \<open>getResult\<close> right after a first one that returned gives back the very
  state the first one returned: the accumulator is equal on both calls and nothing is
  averaged or corrected again.
\<close>

theorem C6_getResult_idempotent:
  "getResult F s = Inr s' \<Longrightarrow> getResult F s' = Inr s'"
  by (auto simp: getResult_def split: if_splits sum.splits)

theorem C6_getResult_idempotent_witness:
  "getResult exact accumulating3 =
     Inr \<lparr>sampleCount = 2, sampleFrequency = 8, segmentCount = 0,
          bins = [25281 / 5000, 75843 / 10000, 7]\<rparr> \<and>
   getResult exact \<lparr>sampleCount = 2, sampleFrequency = 8, segmentCount = 0,
          bins = [25281 / 5000, 75843 / 10000, 7]\<rparr> =
     Inr \<lparr>sampleCount = 2, sampleFrequency = 8, segmentCount = 0,
          bins = [25281 / 5000, 75843 / 10000, 7]\<rparr>"
proof -
  have first: "getResult exact accumulating3 =
     Inr \<lparr>sampleCount = 2, sampleFrequency = 8, segmentCount = 0,
          bins = [25281 / 5000, 75843 / 10000, 7]\<rparr>"
    by (simp add: getResult_def accumulating3_def exact_def windowCorrection_def upt_rec)
  from first C6_getResult_idempotent [OF first] show ?thesis by simp
qed




text \<open>
  C8. \<open>setup\<close> stores the two parameters, sets the segment counter to 0 and leaves the
  accumulator as it was; a \<open>getResult\<close> issued right after it returns the state
  unchanged, so the view it gives is the accumulator from before the call of \<open>setup\<close>.
\<close>

theorem C8_setup_keeps_accumulator:
  "sampleCount (setup_psd n fs s) = n \<and> sampleFrequency (setup_psd n fs s) = fs \<and>
   segmentCount (setup_psd n fs s) = 0 \<and> bins (setup_psd n fs s) = bins s \<and>
   getResult F (setup_psd n fs s) = Inr (setup_psd n fs s)"
  by (simp add: setup_psd_def getResult_def)

text \<open>
  C9, as the claim states it, fails: \<open>computeSegment\<close> receives a pointer and no length,
  and a segment of three samples given to an estimator configured for two is processed
  like its first two samples, with no fault.
\<close>

theorem C9_longer_segment_accepted:
  "length [3, 6, 100 :: 16 word] \<noteq> sampleCount idle4 \<and>
   computeSegment exact passthrough [3, 6, 100] idle4 =
     Inr \<lparr>sampleCount = 2, sampleFrequency = 4, segmentCount = 1, bins = [1 / 8, 1, 9, 9]\<rparr> \<and>
   computeSegment exact passthrough [3, 6] idle4 =
     Inr \<lparr>sampleCount = 2, sampleFrequency = 4, segmentCount = 1, bins = [1 / 8, 1, 9, 9]\<rparr>"
proof -
  have avg: "getAverage exact [3, 6, 100] 2 = Inr 4" "getAverage exact [3, 6] 2 = Inr 4"
    by (simp_all add: getAverage_def exact_def windowCorrection_def upt_rec)
  show ?thesis
    using avg
    by (simp add: idle4_def clear_def computeSegment_def fill_buffers_def magnitude_def
        passthrough_def bin_power_def upt_rec exact_def windowCorrection_def)
qed

text \<open>
  C9, amended. \<open>computeSegment\<close> reads the first \<open>sampleCount\<close> samples of the buffer it
  is given: on a buffer with at least that many samples it does what it does on the
  first \<open>sampleCount\<close> of them, and on a shorter buffer the reads run beyond the end
  of the buffer (the fault \<open>OutOfBounds\<close>).
\<close>

theorem C9_reads_sampleCount_samples:
  "(sampleCount s \<le> length samples \<longrightarrow>
      computeSegment F E samples s = computeSegment F E (take (sampleCount s) samples) s) \<and>
   (length samples < sampleCount s \<longrightarrow> computeSegment F E samples s = Inl OutOfBounds)"
  using computeSegment_take [of s samples F E] computeSegment_short [of samples s F E]
  by blast

theorem C9_reads_sampleCount_samples_witness:
  "sampleCount idle4 \<le> length [3, 6, 100 :: 16 word] \<and>
   computeSegment exact passthrough [3, 6, 100] idle4 =
     computeSegment exact passthrough (take (sampleCount idle4) [3, 6, 100]) idle4 \<and>
   length [3 :: 16 word] < sampleCount idle4 \<and>
   computeSegment exact passthrough [3] idle4 = Inl OutOfBounds"
proof -
  have h: "sampleCount idle4 \<le> length [3, 6, 100 :: 16 word]"
    "length [3 :: 16 word] < sampleCount idle4"
    by (simp_all add: idle4_def)
  from C9_reads_sampleCount_samples [of idle4 "[3, 6, 100]" exact passthrough]
    C9_reads_sampleCount_samples [of idle4 "[3]" exact passthrough] h
  show ?thesis by simp
qed

text \<open>
  C10. Along every sequence of \<open>clear\<close>, \<open>computeSegment\<close> and \<open>getResult\<close> calls that
  runs without a fault, the configured length stays the same and every accumulator
  entry at an index \<open>i \<ge> sampleCount\<close> keeps its value. With \<open>setup\<close> to a smaller
  length first, the entries beyond the new length are those from before.
\<close>

theorem C10_entries_beyond_length_kept:
  assumes "run F E calls s = Inr s'" and "sampleCount s \<le> i" and "i < length (bins s)"
  shows "bins s' ! i = bins s ! i \<and> sampleCount s' = sampleCount s \<and>
    length (bins s') = length (bins s)"
proof -
  from run_frame [OF assms(1)]
  have n: "sampleCount s' = sampleCount s" and len: "length (bins s') = length (bins s)"
    and tail: "drop (sampleCount s) (bins s') = drop (sampleCount s) (bins s)"
    by simp_all
  from assms(2) obtain k where k: "i = sampleCount s + k"
    by (auto simp: le_iff_add)
  have "bins s' ! i = drop (sampleCount s) (bins s') ! k"
    using assms(2,3) len k by simp
  also have "\<dots> = drop (sampleCount s) (bins s) ! k"
    by (simp only: tail)
  also have "\<dots> = bins s ! i"
    using assms(2,3) k by simp
  finally show ?thesis using n len by simp
qed

theorem C10_entries_beyond_length_kept_witness:
  "run exact passthrough [Clear, ComputeSegment [3, 6], GetResult, ComputeSegment [3, 6]]
     (setup_psd 2 4 full4) =
     Inr \<lparr>sampleCount = 2, sampleFrequency = 4, segmentCount = 1, bins = [1 / 8, 1, 9, 9]\<rparr> \<and>
   sampleCount (setup_psd 2 4 full4) \<le> 3 \<and> 3 < length (bins (setup_psd 2 4 full4)) \<and>
   bins \<lparr>sampleCount = 2, sampleFrequency = 4, segmentCount = 1, bins = [1 / 8, 1, 9, 9 :: real]\<rparr> ! 3 =
     bins (setup_psd 2 4 full4) ! 3"
proof -
  have avg: "getAverage exact [3, 6] 2 = Inr 4"
    by (simp add: getAverage_def exact_def windowCorrection_def upt_rec)
  have r: "run exact passthrough [Clear, ComputeSegment [3, 6], GetResult, ComputeSegment [3, 6]]
     (setup_psd 2 4 full4) =
     Inr \<lparr>sampleCount = 2, sampleFrequency = 4, segmentCount = 1, bins = [1 / 8, 1, 9, 9]\<rparr>"
    using avg
    by (simp add: setup_psd_def full4_def clear_def computeSegment_def getResult_def
        fill_buffers_def magnitude_def passthrough_def bin_power_def upt_rec exact_def windowCorrection_def)
  have h: "sampleCount (setup_psd 2 4 full4) \<le> 3" "3 < length (bins (setup_psd 2 4 full4))"
    by (simp_all add: setup_psd_def full4_def)
  from C10_entries_beyond_length_kept [OF r h] r h show ?thesis by simp
qed

end
